theory Spec2Isabelle
  imports Main "HOL-Library.Word" "HOL-Library.Code_Target_Nat"
begin

section \<open>Queue accounting reader\<close>

text \<open>
  \<^verbatim>\<open>ProcNetfilterQueue\<close> is one line of \<^verbatim>\<open>/proc/net/netfilter/nfnetlink_queue\<close>.
  The fields are Go \<^verbatim>\<open>uint\<close>s; no arithmetic is done on them, so they are natural
  numbers here, and the scanner below refuses a token that does not fit 64 bits, as
  \<^verbatim>\<open>strconv.ParseUint\<close> does. The last field is \<^verbatim>\<open>One\<close> in the source.
\<close>

record ProcNetfilterQueue =
  ID :: nat
  PortID :: nat
  Waiting :: nat
  CopyMode :: nat
  CopyRange :: nat
  QueueDropped :: nat
  UserDropped :: nat
  LastSeq :: nat
  One' :: nat

record ProcNetfilter =
  queues :: "nat \<rightharpoonup> ProcNetfilterQueue"

text \<open>The zero value of the struct: what Go returns beside \<^verbatim>\<open>found = false\<close>, and
  what the nine locals of \<^verbatim>\<open>Update\<close> hold before the first scan.\<close>

definition zero_queue :: ProcNetfilterQueue where
  "zero_queue = \<lparr>ID = 0, PortID = 0, Waiting = 0, CopyMode = 0, CopyRange = 0,
     QueueDropped = 0, UserDropped = 0, LastSeq = 0, One' = 0\<rparr>"

definition Get :: "ProcNetfilter \<Rightarrow> nat \<Rightarrow> ProcNetfilterQueue \<times> bool" where
  "Get pn i = (case queues pn i of Some q \<Rightarrow> (q, True) | None \<Rightarrow> (zero_queue, False))"

subsection \<open>The scanner\<close>

text \<open>
  \<^verbatim>\<open>fmt.Fscanf(f, "%d %d %d %d %d %d %d %d %d\n", &id, ...)\<close> is library code. It is
  modelled on the remaining contents of the file, an ASCII text, one \<open>char\<close> per rune:
  \<^item> before a \<^verbatim>\<open>%d\<close> spaces are skipped, and a newline there is the error
    \<^verbatim>\<open>unexpected newline\<close>;
  \<^item> end of input where an operand should start is \<^verbatim>\<open>io.EOF\<close>, whether or not earlier
    operands of the same call were stored;
  \<^item> an operand is a run of decimal digits (no sign for an unsigned operand);
  \<^item> a space of the format matches one or more spaces other than newline, or end of input;
  \<^item> the newline of the format matches spaces followed by a newline or by end of input.
  Each operand is stored through its pointer as soon as it is scanned, so a call that
  fails has already overwritten the locals scanned before the failure.
\<close>

datatype error = EOF | Open_error | Scan_error string

definition isSpace :: "char \<Rightarrow> bool" where
  "isSpace r = (r \<in> set [CHR 0x09, CHR 0x0A, CHR 0x0B, CHR 0x0C, CHR 0x0D, CHR 0x20])"

definition isDigit :: "char \<Rightarrow> bool" where
  "isDigit r = (r \<in> set ''0123456789'')"

abbreviation blank :: "char \<Rightarrow> bool" where
  "blank r \<equiv> isSpace r \<and> r \<noteq> CHR 0x0A"

fun SkipSpace :: "string \<Rightarrow> error + string" where
  "SkipSpace [] = Inr []"
| "SkipSpace (r # rs) =
     (if r = CHR 0x0A then Inl (Scan_error ''unexpected newline'')
      else if isSpace r then SkipSpace rs
      else Inr (r # rs))"

definition digit_val :: "char \<Rightarrow> nat" where
  "digit_val r = of_char r - 48"

definition ParseUint :: "string \<Rightarrow> nat" where
  "ParseUint tok = foldl (\<lambda>n r. 10 * n + digit_val r) 0 tok"

definition scanUint :: "string \<Rightarrow> error + nat \<times> string" where
  "scanUint inp =
     (case SkipSpace inp of
        Inl e \<Rightarrow> Inl e
      | Inr [] \<Rightarrow> Inl EOF
      | Inr (r # rs) \<Rightarrow>
          if \<not> isDigit r then Inl (Scan_error ''expected integer'')
          else let tok = takeWhile isDigit (r # rs);
                   n = ParseUint tok
               in if 2 ^ 64 \<le> n then Inl (Scan_error ''value out of range'')
                  else Inr (n, dropWhile isDigit (r # rs)))"

definition match_space :: "string \<Rightarrow> error + string" where
  "match_space inp =
     (case inp of
        [] \<Rightarrow> Inr []
      | r # rs \<Rightarrow>
          if \<not> isSpace r then Inl (Scan_error ''expected space in input to match format'')
          else if r = CHR 0x0A then Inl (Scan_error ''newline in input does not match format'')
          else Inr (dropWhile blank rs))"

definition match_newline :: "string \<Rightarrow> error + string" where
  "match_newline inp =
     (case dropWhile blank inp of
        [] \<Rightarrow> Inr []
      | r # rs \<Rightarrow>
          if r = CHR 0x0A then Inr rs
          else Inl (Scan_error ''newline in format does not match input''))"

text \<open>The operands after the first: each is \<^verbatim>\<open>" %d"\<close>; the format ends with the
  newline. A pointer argument is the function that stores through it.\<close>

fun scan_operands ::
  "(nat \<Rightarrow> 'a \<Rightarrow> 'a) list \<Rightarrow> string \<Rightarrow> 'a \<Rightarrow> 'a \<times> error option \<times> string" where
  "scan_operands [] inp vars =
     (case match_newline inp of
        Inl e \<Rightarrow> (vars, Some e, inp)
      | Inr rest \<Rightarrow> (vars, None, rest))"
| "scan_operands (p # ps) inp vars =
     (case match_space inp of
        Inl e \<Rightarrow> (vars, Some e, inp)
      | Inr inp1 \<Rightarrow>
          (case scanUint inp1 of
             Inl e \<Rightarrow> (vars, Some e, inp1)
           | Inr (v, inp2) \<Rightarrow> scan_operands ps inp2 (p v vars)))"

definition Fscanf :: "string \<Rightarrow> ProcNetfilterQueue \<Rightarrow> ProcNetfilterQueue \<times> error option \<times> string" where
  "Fscanf inp vars =
     (case scanUint inp of
        Inl e \<Rightarrow> (vars, Some e, inp)
      | Inr (v, inp1) \<Rightarrow>
          scan_operands
            [\<lambda>v a. a\<lparr>PortID := v\<rparr>, \<lambda>v a. a\<lparr>Waiting := v\<rparr>, \<lambda>v a. a\<lparr>CopyMode := v\<rparr>,
             \<lambda>v a. a\<lparr>CopyRange := v\<rparr>, \<lambda>v a. a\<lparr>QueueDropped := v\<rparr>,
             \<lambda>v a. a\<lparr>UserDropped := v\<rparr>, \<lambda>v a. a\<lparr>LastSeq := v\<rparr>, \<lambda>v a. a\<lparr>One' := v\<rparr>]
            inp1 (vars\<lparr>ID := v\<rparr>))"

lemma SkipSpace_length: "SkipSpace inp = Inr rest \<Longrightarrow> length rest \<le> length inp"
  by (induction inp) (auto split: if_splits)

lemma scanUint_length: "scanUint inp = Inr (v, rest) \<Longrightarrow> length rest < length inp"
proof -
  assume a: "scanUint inp = Inr (v, rest)"
  then obtain r rs where s: "SkipSpace inp = Inr (r # rs)" and d: "isDigit r"
    and rest: "rest = dropWhile isDigit (r # rs)"
    by (auto simp: scanUint_def Let_def split: sum.splits list.splits if_splits)
  from rest d have "length rest \<le> length rs"
    by (simp add: length_dropWhile_le)
  with SkipSpace_length [OF s] show ?thesis by simp
qed

lemma match_space_length: "match_space inp = Inr rest \<Longrightarrow> length rest \<le> length inp"
  by (auto simp: match_space_def split: list.splits if_splits
      intro: le_trans [OF length_dropWhile_le])

lemma match_newline_length: "match_newline inp = Inr rest \<Longrightarrow> length rest \<le> length inp"
proof -
  assume a: "match_newline inp = Inr rest"
  have "length (dropWhile blank inp) \<le> length inp" by (rule length_dropWhile_le)
  with a show ?thesis
    by (auto simp: match_newline_def split: list.splits if_splits)
qed

lemma scan_operands_length:
  "scan_operands ps inp vars = (vars', None, rest) \<Longrightarrow> length rest \<le> length inp"
proof (induction ps arbitrary: inp vars)
  case Nil
  then show ?case by (auto split: sum.splits dest: match_newline_length)
next
  case (Cons p ps)
  from Cons.prems obtain inp1 v inp2 where m: "match_space inp = Inr inp1"
    and u: "scanUint inp1 = Inr (v, inp2)"
    and r: "scan_operands ps inp2 (p v vars) = (vars', None, rest)"
    by (auto split: sum.splits)
  from Cons.IH [OF r] scanUint_length [OF u] match_space_length [OF m]
  show ?case by simp
qed

lemma Fscanf_length: "Fscanf inp vars = (vars', None, rest) \<Longrightarrow> length rest < length inp"
proof -
  assume a: "Fscanf inp vars = (vars', None, rest)"
  then obtain v inp1 where u: "scanUint inp = Inr (v, inp1)"
    and r: "scan_operands
            [\<lambda>v a. a\<lparr>PortID := v\<rparr>, \<lambda>v a. a\<lparr>Waiting := v\<rparr>, \<lambda>v a. a\<lparr>CopyMode := v\<rparr>,
             \<lambda>v a. a\<lparr>CopyRange := v\<rparr>, \<lambda>v a. a\<lparr>QueueDropped := v\<rparr>,
             \<lambda>v a. a\<lparr>UserDropped := v\<rparr>, \<lambda>v a. a\<lparr>LastSeq := v\<rparr>, \<lambda>v a. a\<lparr>One' := v\<rparr>]
            inp1 (vars\<lparr>ID := v\<rparr>) = (vars', None, rest)"
    by (auto simp: Fscanf_def split: sum.splits)
  from scan_operands_length [OF r] scanUint_length [OF u] show ?thesis by simp
qed

subsection \<open>Update\<close>

text \<open>
  The scan loop of \<^verbatim>\<open>Update\<close>: the locals are declared once, before the loop, and every
  iteration marks \<^verbatim>\<open>id\<close> as seen and stores the record built from the locals before it
  looks at the error of the scan. \<^verbatim>\<open>seen\<close> only ever holds \<^verbatim>\<open>true\<close>, so it is a set.
  The result is the error returned (\<open>None\<close> after the \<^verbatim>\<open>break\<close>), the map and \<^verbatim>\<open>seen\<close>.
\<close>

function Update_loop ::
  "string \<Rightarrow> ProcNetfilterQueue \<Rightarrow> nat set \<Rightarrow> (nat \<rightharpoonup> ProcNetfilterQueue) \<Rightarrow>
   error option \<times> (nat \<rightharpoonup> ProcNetfilterQueue) \<times> nat set" where
  "Update_loop f vars seen qs =
     (case Fscanf f vars of
        (vars', err, f') \<Rightarrow>
          (if err = Some EOF then (None, qs(ID vars' \<mapsto> vars'), insert (ID vars') seen)
           else if err \<noteq> None then (err, qs(ID vars' \<mapsto> vars'), insert (ID vars') seen)
           else Update_loop f' vars' (insert (ID vars') seen) (qs(ID vars' \<mapsto> vars'))))"
  by pat_completeness auto
termination
  by (relation "measure (\<lambda>(f, vars, seen, qs). length f)") (auto dest: Fscanf_length [OF sym])

text \<open>
  \<^verbatim>\<open>Update\<close> on the contents of the accounting file (\<open>None\<close> when it cannot be opened).
  The map is updated in place, so an error return leaves the records stored so far and
  evicts nothing.
\<close>

definition Update :: "string option \<Rightarrow> ProcNetfilter \<Rightarrow> error option \<times> ProcNetfilter" where
  "Update file pn =
     (case file of
        None \<Rightarrow> (Some Open_error, pn)
      | Some f \<Rightarrow>
          (case Update_loop f zero_queue {} (queues pn) of
             (Some e, qs, seen) \<Rightarrow> (Some e, pn\<lparr>queues := qs\<rparr>)
           | (None, qs, seen) \<Rightarrow> (None, pn\<lparr>queues := qs |` seen\<rparr>)))"

definition ReadProcNetfilter :: "string option \<Rightarrow> error + ProcNetfilter" where
  "ReadProcNetfilter file =
     (case Update file \<lparr>queues = Map.empty\<rparr> of
        (Some e, pn) \<Rightarrow> Inl e
      | (None, pn) \<Rightarrow> Inr pn)"

subsection \<open>The text of the accounting file\<close>

text \<open>
  The interface the kernel offers: one line per queue, nine unsigned decimal numbers.
  \<open>uitoa\<close> writes a number the way \<^verbatim>\<open>strconv\<close> does, from its table of digits;
  \<open>line\<close> writes one record with single spaces; \<open>accounting_text\<close> is a whole file.
  \<open>fits\<close> says that the nine fields are values of a 64-bit \<^verbatim>\<open>uint\<close>.
  \<open>seen_ids f\<close> is the contents of \<^verbatim>\<open>seen\<close> when the scan loop over \<open>f\<close> ends.
\<close>

fun uitoa :: "nat \<Rightarrow> string" where
  "uitoa n = (if n < 10 then [''0123456789'' ! n] else uitoa (n div 10) @ [''0123456789'' ! (n mod 10)])"

declare uitoa.simps [simp del]

definition line :: "ProcNetfilterQueue \<Rightarrow> string" where
  "line r = uitoa (ID r) @ concat (map (\<lambda>v. CHR 0x20 # uitoa v)
     [PortID r, Waiting r, CopyMode r, CopyRange r, QueueDropped r, UserDropped r, LastSeq r, One' r])
     @ [CHR 0x0A]"

definition fits :: "ProcNetfilterQueue \<Rightarrow> bool" where
  "fits r = list_all (\<lambda>v. v < 2 ^ 64)
     [ID r, PortID r, Waiting r, CopyMode r, CopyRange r, QueueDropped r, UserDropped r, LastSeq r, One' r]"

definition accounting_text :: "ProcNetfilterQueue list \<Rightarrow> string" where
  "accounting_text recs = concat (map line recs)"

definition seen_ids :: "string \<Rightarrow> nat set" where
  "seen_ids f = snd (snd (Update_loop f zero_queue {} Map.empty))"


subsection \<open>Scanning\<close>

declare Update_loop.simps [simp del]

lemmas scan_defs = Fscanf_def scanUint_def isDigit_def isSpace_def match_space_def
  match_newline_def ParseUint_def digit_val_def

lemma Fscanf_empty: "Fscanf [] vars = (vars, Some EOF, [])"
  by (simp add: scan_defs)

lemma Update_loop_EOF:
  "Update_loop [] vars seen qs = (None, qs(ID vars \<mapsto> vars), insert (ID vars) seen)"
  by (simp add: Update_loop.simps Fscanf_empty)

lemma digit_char: "d < 10 \<Longrightarrow> isDigit (''0123456789'' ! d) \<and> digit_val (''0123456789'' ! d) = d"
proof -
  assume "d < 10"
  then have "d \<in> {0, 1, 2, 3, 4, 5, 6, 7, 8, 9}" by auto
  then show ?thesis by (auto simp: isDigit_def digit_val_def)
qed

lemma uitoa_digits: "\<forall>c \<in> set (uitoa n). isDigit c"
proof (induction n rule: uitoa.induct)
  case (1 n)
  show ?case
  proof (cases "n < 10")
    case True
    then show ?thesis by (simp add: uitoa.simps [of n] digit_char)
  next
    case False
    with 1 show ?thesis by (simp add: uitoa.simps [of n] digit_char)
  qed
qed

lemma uitoa_nonempty: "uitoa n \<noteq> []"
  by (subst uitoa.simps) simp

lemma ParseUint_snoc: "ParseUint (tok @ [c]) = 10 * ParseUint tok + digit_val c"
  by (simp add: ParseUint_def)

lemma ParseUint_uitoa: "ParseUint (uitoa n) = n"
proof (induction n rule: uitoa.induct)
  case (1 n)
  show ?case
  proof (cases "n < 10")
    case True
    then show ?thesis by (simp add: uitoa.simps [of n] ParseUint_def digit_char)
  next
    case False
    with 1 have "ParseUint (uitoa (n div 10)) = n div 10" by simp
    with False show ?thesis
      by (simp add: uitoa.simps [of n] ParseUint_snoc digit_char)
  qed
qed

lemma SkipSpace_digit: "isDigit d \<Longrightarrow> SkipSpace (d # rest) = Inr (d # rest)"
  by (auto simp: isDigit_def isSpace_def)

lemma scanUint_uitoa:
  assumes "n < 2 ^ 64" and "\<not> isDigit c"
  shows "scanUint (uitoa n @ c # rest) = Inr (n, c # rest)"
proof -
  obtain d ds where u: "uitoa n = d # ds"
    using uitoa_nonempty [of n] by (cases "uitoa n") auto
  have ds: "\<And>x. x \<in> set (uitoa n) \<Longrightarrow> isDigit x" using uitoa_digits by blast
  then have d: "isDigit d" by (simp add: u)
  have tw: "takeWhile isDigit (uitoa n @ c # rest) = uitoa n"
    using ds assms(2) by (simp add: takeWhile_append2)
  have dw: "dropWhile isDigit (uitoa n @ c # rest) = c # rest"
    using ds assms(2) by (simp add: dropWhile_append2)
  have s: "SkipSpace (uitoa n @ c # rest) = Inr (d # ds @ c # rest)"
    using SkipSpace_digit [OF d] by (simp add: u)
  from tw dw have tw': "takeWhile isDigit (d # ds @ c # rest) = uitoa n"
    and dw': "dropWhile isDigit (d # ds @ c # rest) = c # rest"
    by (simp_all add: u)
  show ?thesis
    unfolding scanUint_def s
    using d assms(1) tw' dw' by (simp add: ParseUint_uitoa Let_def del: takeWhile.simps dropWhile.simps)
qed


lemma match_space_digit: "isDigit d \<Longrightarrow> match_space (CHR 0x20 # d # rest) = Inr (d # rest)"
  by (auto simp: match_space_def isSpace_def isDigit_def)

lemma match_space_uitoa: "match_space (CHR 0x20 # uitoa n @ rest) = Inr (uitoa n @ rest)"
proof -
  obtain d ds where u: "uitoa n = d # ds"
    using uitoa_nonempty [of n] by (cases "uitoa n") auto
  with uitoa_digits [of n] have "isDigit d" by simp
  then show ?thesis by (simp add: u match_space_digit)
qed

lemma match_newline_nl: "match_newline (CHR 0x0A # rest) = Inr rest"
  by (simp add: match_newline_def isSpace_def)

lemma not_digit_space: "\<not> isDigit (CHR 0x20)"
  by (simp add: isDigit_def)

lemma not_digit_nl: "\<not> isDigit (CHR 0x0A)"
  by (simp add: isDigit_def)

lemma scan_operands_text:
  assumes "length ps = length vs" and "\<forall>v \<in> set vs. v < 2 ^ 64"
  shows "scan_operands ps (concat (map (\<lambda>v. CHR 0x20 # uitoa v) vs) @ CHR 0x0A # rest) vars =
           (fold (\<lambda>(p, v). p v) (zip ps vs) vars, None, rest)"
  using assms
proof (induction ps arbitrary: vs vars)
  case Nil
  then show ?case by (simp add: match_newline_nl)
next
  case (Cons p ps)
  then obtain v vs' where vs: "vs = v # vs'" by (cases vs) auto
  with Cons.prems have len: "length ps = length vs'" and v: "v < 2 ^ 64"
    and rest: "\<forall>v \<in> set vs'. v < 2 ^ 64" by auto
  let ?tail = "concat (map (\<lambda>v. CHR 0x20 # uitoa v) vs') @ CHR 0x0A # rest"
  obtain c cs where tail: "?tail = c # cs" and c: "\<not> isDigit c"
    by (cases vs') (auto simp: not_digit_space not_digit_nl)
  have u: "scanUint (uitoa v @ ?tail) = Inr (v, ?tail)"
    unfolding tail using scanUint_uitoa [OF v c] .
  show ?case
    using Cons.IH [OF len rest] by (simp add: vs match_space_uitoa u)
qed

lemma Fscanf_line:
  assumes "fits r"
  shows "Fscanf (line r @ rest) vars = (r, None, rest)"
proof -
  let ?vs = "[PortID r, Waiting r, CopyMode r, CopyRange r, QueueDropped r, UserDropped r,
    LastSeq r, One' r]"
  let ?ps = "[\<lambda>v a. a\<lparr>PortID := v\<rparr>, \<lambda>v a. a\<lparr>Waiting := v\<rparr>, \<lambda>v a. a\<lparr>CopyMode := v\<rparr>,
    \<lambda>v a. a\<lparr>CopyRange := v\<rparr>, \<lambda>v a. a\<lparr>QueueDropped := v\<rparr>,
    \<lambda>v a. a\<lparr>UserDropped := v\<rparr>, \<lambda>v a. a\<lparr>LastSeq := v\<rparr>,
    \<lambda>v (a::ProcNetfilterQueue). a\<lparr>One' := v\<rparr>]"
  let ?tail = "concat (map (\<lambda>v. CHR 0x20 # uitoa v) ?vs) @ CHR 0x0A # rest"
  from assms have id: "ID r < 2 ^ 64" and vs: "\<forall>v \<in> set ?vs. v < 2 ^ 64"
    by (simp_all add: fits_def)
  have c: "\<not> isDigit (CHR 0x20)" by (rule not_digit_space)
  have l: "line r @ rest = uitoa (ID r) @ ?tail" by (simp add: line_def)
  have u: "scanUint (uitoa (ID r) @ ?tail) = Inr (ID r, ?tail)"
    using scanUint_uitoa [OF id c] by simp
  have len: "length ?ps = length ?vs" by simp
  have r: "fold (\<lambda>(p, v). p v) (zip ?ps ?vs) (vars\<lparr>ID := ID r\<rparr>) = r"
    by (cases r, cases vars) simp
  have "Fscanf (uitoa (ID r) @ ?tail) vars = scan_operands ?ps ?tail (vars\<lparr>ID := ID r\<rparr>)"
    by (simp only: Fscanf_def u sum.case prod.case)
  also have "\<dots> = (r, None, rest)"
    by (simp only: scan_operands_text [OF len vs] r)
  finally show ?thesis by (simp only: l)
qed

lemma Update_loop_line:
  assumes "fits r"
  shows "Update_loop (line r @ rest) vars seen qs =
           Update_loop rest r (insert (ID r) seen) (qs(ID r \<mapsto> r))"
  by (subst Update_loop.simps) (simp add: Fscanf_line [OF assms])
lemma Update_loop_text:
  assumes "\<forall>r \<in> set recs. fits r"
  shows "fst (Update_loop (accounting_text recs) vars seen qs) = None \<and>
         snd (snd (Update_loop (accounting_text recs) vars seen qs)) =
           seen \<union> ID ` set (recs @ [last (vars # recs)])"
  using assms
proof (induction recs arbitrary: vars seen qs)
  case Nil
  then show ?case by (simp add: accounting_text_def Update_loop_EOF)
next
  case (Cons r recs)
  then have f: "fits r" and rest: "\<forall>r \<in> set recs. fits r" by auto
  have "Update_loop (accounting_text (r # recs)) vars seen qs =
      Update_loop (accounting_text recs) r (insert (ID r) seen) (qs(ID r \<mapsto> r))"
    using Update_loop_line [OF f] by (simp add: accounting_text_def)
  then show ?case
    using Cons.IH [OF rest, of r "insert (ID r) seen" "qs(ID r \<mapsto> r)"]
    by (auto simp del: fun_upd_apply)
qed

lemma seen_ids_text:
  assumes "\<forall>r \<in> set recs. fits r"
  shows "seen_ids (accounting_text recs) = (if recs = [] then {0} else ID ` set recs)"
proof -
  have "recs \<noteq> [] \<Longrightarrow> last recs \<in> set recs" by simp
  then show ?thesis
    unfolding seen_ids_def using Update_loop_text [OF assms, of zero_queue "{}" Map.empty]
    by (auto simp: zero_queue_def)
qed

lemma Update_loop_seen_qs:
  "snd (snd (Update_loop f vars seen qs)) = snd (snd (Update_loop f vars seen qs'))"
proof (induction f arbitrary: vars seen qs qs' rule: measure_induct_rule [of length])
  case (less f)
  obtain vars' err f' where s: "Fscanf f vars = (vars', err, f')"
    by (cases "Fscanf f vars") auto
  show ?case
  proof (cases "err = None")
    case True
    with s have "length f' < length f" by (simp add: Fscanf_length)
    from less.IH [OF this] True show ?thesis
      by (simp add: Update_loop.simps [of f vars] s del: fun_upd_apply)
  next
    case False
    then show ?thesis
      by (simp add: Update_loop.simps [of f vars] s)
  qed
qed

text \<open>
  What a successful refresh evicts: after it, an id that the pass did not mark as seen
  is not found, whatever the snapshot held before.
\<close>

lemma Update_evicts_unseen:
  assumes "Update (Some f1) pn0 = (None, pn1)"
    and "Update (Some f2) pn1 = (None, pn2)"
    and "i \<notin> seen_ids f2"
  shows "Get pn2 i = (zero_queue, False)"
proof -
  obtain e qs seen where l: "Update_loop f2 zero_queue {} (queues pn1) = (e, qs, seen)"
    by (cases "Update_loop f2 zero_queue {} (queues pn1)") auto
  with assms(2) have e: "e = None" and pn2: "pn2 = pn1\<lparr>queues := qs |` seen\<rparr>"
    by (auto simp: Update_def split: option.splits)
  have "seen = seen_ids f2"
    unfolding seen_ids_def
    using Update_loop_seen_qs [of f2 zero_queue "{}" "queues pn1" Map.empty] l by simp
  with assms(3) have "(qs |` seen) i = None" by (simp add: restrict_map_def)
  then show ?thesis by (simp add: Get_def pn2)
qed

lemma Update_empty:
  "Update (Some []) pn = (None, pn\<lparr>queues := (queues pn)(0 \<mapsto> zero_queue) |` {0}\<rparr>)"
  by (simp add: Update_def Update_loop_EOF) (simp add: zero_queue_def)

lemma Update_loop_sample:
  "Update_loop ''1 0 0 2 65531 0 0 1 1'' vars seen qs =
     (None,
      qs(1 \<mapsto> \<lparr>ID = 1, PortID = 0, Waiting = 0, CopyMode = 2, CopyRange = 65531,
                QueueDropped = 0, UserDropped = 0, LastSeq = 1, One' = 1\<rparr>),
      insert 1 seen)"
proof -
  have "Fscanf ''1 0 0 2 65531 0 0 1 1'' vars =
     (\<lparr>ID = 1, PortID = 0, Waiting = 0, CopyMode = 2, CopyRange = 65531,
       QueueDropped = 0, UserDropped = 0, LastSeq = 1, One' = 1\<rparr>, None, [])"
    by (simp add: scan_defs)
  then show ?thesis
    by (simp add: Update_loop.simps [of "''1 0 0 2 65531 0 0 1 1''"] Update_loop_EOF)
qed

lemma Update_loop_sample_zero:
  "Update_loop ''0 0 0 2 65531 0 0 1 1\<newline>'' vars seen qs =
     (None,
      qs(0 \<mapsto> \<lparr>ID = 0, PortID = 0, Waiting = 0, CopyMode = 2, CopyRange = 65531,
                QueueDropped = 0, UserDropped = 0, LastSeq = 1, One' = 1\<rparr>),
      insert 0 seen)"
proof -
  have "Fscanf ''0 0 0 2 65531 0 0 1 1\<newline>'' vars =
     (\<lparr>ID = 0, PortID = 0, Waiting = 0, CopyMode = 2, CopyRange = 65531,
       QueueDropped = 0, UserDropped = 0, LastSeq = 1, One' = 1\<rparr>, None, [])"
    by (simp add: scan_defs)
  then show ?thesis
    by (simp add: Update_loop.simps [of "''0 0 0 2 65531 0 0 1 1\<newline>''"] Update_loop_EOF)
qed

subsection \<open>Properties of the accounting reader\<close>

text \<open>
  C3. Two successful refreshes, the second over an input that omits an id of the first:
  the claim is that \<open>Get\<close> then reports the id as not found. The code marks the id
  variable as seen before it looks at the error of the scan, so a second refresh over
  an empty file marks id 0, stores an all-zero record under it and does not evict it.
  Here the first input holds one record, of id 0, and the second input holds none:
  both refreshes succeed and \<open>Get 0\<close> still reports found.
\<close>

theorem Update_empty_keeps_id_zero:
  "fst (Update (Some ''0 0 0 2 65531 0 0 1 1\<newline>'') \<lparr>queues = Map.empty\<rparr>) = None \<and>
   fst (Update (Some [])
     (snd (Update (Some ''0 0 0 2 65531 0 0 1 1\<newline>'') \<lparr>queues = Map.empty\<rparr>))) = None \<and>
   Get (snd (Update (Some [])
     (snd (Update (Some ''0 0 0 2 65531 0 0 1 1\<newline>'') \<lparr>queues = Map.empty\<rparr>)))) 0 =
     (zero_queue, True)"
proof -
  have "fst (Update (Some ''0 0 0 2 65531 0 0 1 1\<newline>'') \<lparr>queues = Map.empty\<rparr>) = None"
    by (simp add: Update_def Update_loop_sample_zero)
  moreover have "\<And>pn. fst (Update (Some []) pn) = None"
    by (simp add: Update_empty)
  moreover have "\<And>pn. Get (snd (Update (Some []) pn)) 0 = (zero_queue, True)"
    by (simp add: Update_empty Get_def)
  ultimately show ?thesis by simp
qed

text \<open>
  C4. A refresh over the single line \<^verbatim>\<open>1 0 0 2 65531 0 0 1 1\<close> succeeds, whatever the
  snapshot held, and \<open>Get 1\<close> then returns the record of that line, found.
\<close>

theorem Update_sample_line:
  "fst (Update (Some ''1 0 0 2 65531 0 0 1 1'') pn) = None \<and>
   Get (snd (Update (Some ''1 0 0 2 65531 0 0 1 1'') pn)) 1 =
     (\<lparr>ID = 1, PortID = 0, Waiting = 0, CopyMode = 2, CopyRange = 65531,
       QueueDropped = 0, UserDropped = 0, LastSeq = 1, One' = 1\<rparr>, True)"
  by (simp add: Update_def Update_loop_sample Get_def)

text \<open>
  C9. A refresh over an input without records succeeds and leaves an all-zero record
  under id 0, so \<open>Get 0\<close> reports found, whatever the snapshot held. More generally, when
  a scan ends with an error (end of input or any other), the loop has already marked the
  id variable as seen and stored the record built from the locals as that scan left them.
\<close>

theorem Update_upserts_before_error_check:
  "fst (Update (Some []) pn) = None \<and>
   Get (snd (Update (Some []) pn)) 0 = (zero_queue, True) \<and>
   (Fscanf f vars = (vars', Some e, f') \<longrightarrow>
      Update_loop f vars seen qs =
        (if e = EOF then None else Some e, qs(ID vars' \<mapsto> vars'), insert (ID vars') seen))"
proof -
  have "fst (Update (Some []) pn) = None"
    by (simp add: Update_empty)
  moreover have "Get (snd (Update (Some []) pn)) 0 = (zero_queue, True)"
    by (simp add: Update_empty Get_def)
  moreover have "Update_loop f vars seen qs =
      (if e = EOF then None else Some e, qs(ID vars' \<mapsto> vars'), insert (ID vars') seen)"
    if "Fscanf f vars = (vars', Some e, f')"
    using that by (simp add: Update_loop.simps [of f vars])
  ultimately show ?thesis by blast
qed

theorem Update_upserts_before_error_check_witness:
  "Fscanf ''7 x'' zero_queue =
     (zero_queue\<lparr>ID := 7\<rparr>, Some (Scan_error ''expected integer''), ''x'') \<and>
   Update_loop ''7 x'' zero_queue {} Map.empty =
     (Some (Scan_error ''expected integer''), [7 \<mapsto> zero_queue\<lparr>ID := 7\<rparr>], {7})"
proof -
  have s: "Fscanf ''7 x'' zero_queue =
     (zero_queue\<lparr>ID := 7\<rparr>, Some (Scan_error ''expected integer''), ''x'')"
    by (simp add: scan_defs)
  from Update_upserts_before_error_check
    [of \<open>\<lparr>queues = Map.empty\<rparr>\<close> "''7 x''" zero_queue "zero_queue\<lparr>ID := 7\<rparr>"
        "Scan_error ''expected integer''" "''x''" "{}" Map.empty] s
  show ?thesis by simp
qed

end
